theory Spec2Isabelle
  imports Main "HOL-Library.Word"
begin

section \<open>Python values\<close>

text \<open>
  A Python \<open>str\<close> is a sequence of Unicode code points; a code point is modelled as a
  natural number (Python's own strings hold code points up to \<open>0x10FFFF\<close>), \<open>bytes\<close> as
  a list of 8-bit words. \<open>str\<close> turns an ASCII literal into such a string.
\<close>

type_synonym pystr = "nat list"

type_synonym bytes = "8 word list"

definition str :: "string \<Rightarrow> pystr" where
  "str s = map of_char s"

text \<open>
  The exceptions that the modelled code can raise. \<open>RuntimeError\<close> carries the value
  of \<open>max_retries\<close> that its message is formatted with.
\<close>

datatype error = RuntimeError int | UnicodeEncodeError | ValueError | IndexError

text \<open>\<open>range(n)\<close>: the numbers \<open>0, ..., n - 1\<close>, none when \<open>n \<le> 0\<close>.\<close>

definition py_range :: "int \<Rightarrow> nat list" where
  "py_range n = [0..<nat n]"

text \<open>
  \<open>s[i]\<close> on a string: a one-character string; a negative index counts from the end,
  an index out of range raises \<open>IndexError\<close>.
\<close>

definition getitem :: "pystr \<Rightarrow> int \<Rightarrow> error + pystr" where
  "getitem s i =
     (let n = int (length s); j = (if i < 0 then n + i else i)
      in if 0 \<le> j \<and> j < n then Inr [s ! nat j] else Inl IndexError)"

text \<open>\<open>''.join(parts)\<close>.\<close>

definition join :: "pystr list \<Rightarrow> pystr" where
  "join parts = concat parts"

subsection \<open>\<open>str.encode('utf-8')\<close>\<close>

text \<open>
  The strict UTF-8 codec: a surrogate code point (\<open>U+D800\<close> to \<open>U+DFFF\<close>) anywhere in
  the string raises \<open>UnicodeEncodeError\<close>; every other code point becomes one to four
  bytes. (A number above \<open>0x10FFFF\<close> is not a code point of any Python string; the
  model gives it the four-byte form of the code points from \<open>0x10000\<close> on.)
\<close>

definition surrogate :: "nat \<Rightarrow> bool" where
  "surrogate c = (0xD800 \<le> c \<and> c \<le> 0xDFFF)"

definition utf8_bytes :: "nat \<Rightarrow> bytes" where
  "utf8_bytes c =
     (if c < 0x80 then [of_nat c]
      else if c < 0x800 then
        [of_nat (0xC0 + c div 0x40), of_nat (0x80 + c mod 0x40)]
      else if c < 0x10000 then
        [of_nat (0xE0 + c div 0x1000), of_nat (0x80 + c div 0x40 mod 0x40),
         of_nat (0x80 + c mod 0x40)]
      else
        [of_nat (0xF0 + c div 0x40000), of_nat (0x80 + c div 0x1000 mod 0x40),
         of_nat (0x80 + c div 0x40 mod 0x40), of_nat (0x80 + c mod 0x40)])"

definition encode_utf8 :: "pystr \<Rightarrow> error + bytes" where
  "encode_utf8 s =
     (if \<exists>c \<in> set s. surrogate c then Inl UnicodeEncodeError
      else Inr (concat (map utf8_bytes s)))"

subsection \<open>Hexadecimal text\<close>

text \<open>
  \<open>hexlify k v\<close> writes \<open>v\<close> as \<open>k\<close> lower-case hexadecimal digits, most significant
  first, as \<open>bytes.hex()\<close> and \<open>hexdigest()\<close> do for the big-endian value of their bytes.
\<close>

definition hex_digit :: "nat \<Rightarrow> nat" where
  "hex_digit d = str ''0123456789abcdef'' ! (d mod 16)"

fun hexlify :: "nat \<Rightarrow> nat \<Rightarrow> pystr" where
  "hexlify 0 v = []"
| "hexlify (Suc k) v = hexlify k (v div 16) @ [hex_digit (v mod 16)]"

text \<open>
  \<open>int(s, 16)\<close> on a string of hexadecimal digits. Python also accepts a sign, a
  \<open>0x\<close> prefix, underscores between digits and surrounding white space; these spellings
  are not modelled (a hex digest has none of them), and every string that is not a
  non-empty run of hexadecimal digits is taken to raise \<open>ValueError\<close>.
\<close>

definition hex_value :: "nat \<Rightarrow> int option" where
  "hex_value c =
     (if 48 \<le> c \<and> c \<le> 57 then Some (int c - 48)
      else if 97 \<le> c \<and> c \<le> 102 then Some (int c - 87)
      else if 65 \<le> c \<and> c \<le> 70 then Some (int c - 55)
      else None)"

fun int16_from :: "int \<Rightarrow> pystr \<Rightarrow> error + int" where
  "int16_from acc [] = Inr acc"
| "int16_from acc (c # cs) =
     (case hex_value c of
        None \<Rightarrow> Inl ValueError
      | Some d \<Rightarrow> int16_from (acc * 16 + d) cs)"

definition int16 :: "pystr \<Rightarrow> error + int" where
  "int16 s = (if s = [] then Inl ValueError else int16_from 0 s)"

subsection \<open>The entropy source and the digest\<close>

text \<open>
  The process-wide random source is a stream of bytes still to be drawn.
  \<open>secrets.token_hex(n)\<close> draws \<open>n\<close> bytes and returns their \<open>2 * n\<close> hexadecimal
  digits; the stream that is left is returned with them.
\<close>

type_synonym entropy = "nat \<Rightarrow> 8 word"

definition token_hex :: "nat \<Rightarrow> entropy \<Rightarrow> pystr \<times> entropy" where
  "token_hex n rnd =
     (concat (map (\<lambda>i. hexlify 2 (unat (rnd i))) [0..<n]), \<lambda>i. rnd (i + n))"

text \<open>
  \<open>hashlib.sha256\<close> is a library function, not code of this repository: it is a
  parameter \<open>H\<close> of the model, a function from the hashed bytes to the 256-bit digest.
  Every theorem below holds for every such function. \<open>hexdigest\<close> writes the digest as
  64 hexadecimal digits.
\<close>

type_synonym hash = "bytes \<Rightarrow> 256 word"

definition hexdigest :: "256 word \<Rightarrow> pystr" where
  "hexdigest d = hexlify 64 (unat d)"

section \<open>\<open>app/utils.py\<close>: \<open>generate_short_id\<close>\<close>

text \<open>\<open>string.ascii_letters + string.digits\<close>: lower case first, then upper case, then digits.\<close>

definition ascii_letters :: pystr where
  "ascii_letters = str ''abcdefghijklmnopqrstuvwxyzABCDEFGHIJKLMNOPQRSTUVWXYZ''"

definition digits :: pystr where
  "digits = str ''0123456789''"

definition base62_chars :: pystr where
  "base62_chars = ascii_letters @ digits"

text \<open>
  The \<open>for _ in range(length)\<close> loop: \<open>divmod\<close> by 62, the symbol at the remainder
  appended to \<open>result\<close>, the quotient carried on.
\<close>

fun base62_loop :: "nat list \<Rightarrow> int \<Rightarrow> pystr list \<Rightarrow> error + pystr list" where
  "base62_loop [] hash_int result = Inr result"
| "base62_loop (i # rest) hash_int result =
     (let quotient = hash_int div 62; remainder = hash_int mod 62
      in case getitem base62_chars remainder of
           Inl e \<Rightarrow> Inl e
         | Inr symbol \<Rightarrow> base62_loop rest quotient (result @ [symbol]))"

text \<open>
  \<open>generate_short_id(url, length)\<close>. The token is drawn first, so the entropy is used
  up also when the encoding then raises.
\<close>

definition generate_short_id ::
    "hash \<Rightarrow> pystr \<Rightarrow> int \<Rightarrow> entropy \<Rightarrow> (error + pystr) \<times> entropy" where
  "generate_short_id H url len rnd =
     (let (token, rnd') = token_hex 8 rnd
      in case encode_utf8 (url @ token) of
           Inl e \<Rightarrow> (Inl e, rnd')
         | Inr hash_input \<Rightarrow>
             (let hash_digest = hexdigest (H hash_input)
              in case int16 (take 16 hash_digest) of
                   Inl e \<Rightarrow> (Inl e, rnd')
                 | Inr hash_int \<Rightarrow>
                     (case base62_loop (py_range len) hash_int [] of
                        Inl e \<Rightarrow> (Inl e, rnd')
                      | Inr result \<Rightarrow> (Inr (join result), rnd'))))"

subsection \<open>The generator as the specification words it\<close>

text \<open>
  The algorithm of the specification, written from its sentences and not from the code:
  the seed is the URL followed by a random byte sequence; the seed is hashed; the first
  64 bits of the digest (its first 16 hexadecimal characters) are read as a non-negative
  integer; then, \<open>k\<close> times, the remainder modulo 62 selects a symbol of the alphabet,
  least-significant digit first, and the quotient is carried on.
\<close>

fun base62_symbols :: "nat \<Rightarrow> nat \<Rightarrow> pystr" where
  "base62_symbols 0 v = []"
| "base62_symbols (Suc k) v = base62_chars ! (v mod 62) # base62_symbols k (v div 62)"

definition digest_prefix :: "256 word \<Rightarrow> nat" where
  "digest_prefix d = unat d div 2 ^ 192"

definition generate_spec :: "hash \<Rightarrow> bytes \<Rightarrow> bytes \<Rightarrow> nat \<Rightarrow> pystr" where
  "generate_spec H url_bytes random_bytes k =
     base62_symbols k (digest_prefix (H (url_bytes @ random_bytes)))"

text \<open>The bytes of a string of ASCII characters.\<close>

definition ascii_bytes :: "pystr \<Rightarrow> bytes" where
  "ascii_bytes s = map of_nat s"

section \<open>\<open>app/storage.py\<close>: \<open>InMemoryURLStorage\<close>\<close>

text \<open>
  The store is the dictionary \<open>_storage\<close>. Each method takes \<open>_lock\<close>, performs one
  dictionary operation and releases the lock before it returns: the lock is free
  whenever a method is entered, and a method is one atomic step on the dictionary.
\<close>

type_synonym url_storage = "pystr \<rightharpoonup> pystr"

definition save :: "url_storage \<Rightarrow> pystr \<Rightarrow> pystr \<Rightarrow> url_storage" where
  "save st short_id original_url = st(short_id \<mapsto> original_url)"

definition get :: "url_storage \<Rightarrow> pystr \<Rightarrow> pystr option" where
  "get st short_id = st short_id"

definition exists :: "url_storage \<Rightarrow> pystr \<Rightarrow> bool" where
  "exists st short_id = (short_id \<in> dom st)"

section \<open>\<open>app/url_service.py\<close>: \<open>URLShortenerService\<close>\<close>

record url_shortener_service =
  storage :: url_storage
  max_retries :: int

text \<open>\<open>URLShortenerService(storage)\<close>, with the default \<open>max_retries = 5\<close>.\<close>

definition new_service :: "url_storage \<Rightarrow> url_shortener_service" where
  "new_service st = \<lparr>storage = st, max_retries = 5\<rparr>"

text \<open>
  The body of \<open>create_short_url\<close>: the loop over \<open>range(self.max_retries)\<close>, and the
  \<open>RuntimeError\<close> after it. The result is what the call returns or raises, the service
  with its store as the call leaves it, and the entropy that is left.
\<close>

fun attempt_loop ::
    "hash \<Rightarrow> pystr \<Rightarrow> nat list \<Rightarrow> url_shortener_service \<Rightarrow> entropy \<Rightarrow>
      (error + pystr) \<times> url_shortener_service \<times> entropy" where
  "attempt_loop H original_url [] svc rnd =
     (Inl (RuntimeError (max_retries svc)), svc, rnd)"
| "attempt_loop H original_url (attempt # rest) svc rnd =
     (case generate_short_id H original_url 6 rnd of
        (Inl e, rnd') \<Rightarrow> (Inl e, svc, rnd')
      | (Inr short_id, rnd') \<Rightarrow>
          if \<not> exists (storage svc) short_id
          then (Inr short_id,
                svc\<lparr>storage := save (storage svc) short_id original_url\<rparr>, rnd')
          else attempt_loop H original_url rest svc rnd')"

definition create_short_url ::
    "hash \<Rightarrow> pystr \<Rightarrow> url_shortener_service \<Rightarrow> entropy \<Rightarrow>
      (error + pystr) \<times> url_shortener_service \<times> entropy" where
  "create_short_url H original_url svc rnd =
     attempt_loop H original_url (py_range (max_retries svc)) svc rnd"

definition get_original_url :: "url_shortener_service \<Rightarrow> pystr \<Rightarrow> pystr option" where
  "get_original_url svc short_id = get (storage svc) short_id"

subsection \<open>The candidates of one call\<close>

text \<open>
  Each attempt draws eight bytes. \<open>candidate H url rnd i\<close> is what
  \<open>generate_short_id\<close> gives at attempt \<open>i\<close> of a call that starts with the entropy
  \<open>rnd\<close>.
\<close>

definition drop_entropy :: "nat \<Rightarrow> entropy \<Rightarrow> entropy" where
  "drop_entropy k rnd = (\<lambda>i. rnd (i + k))"

definition candidate :: "hash \<Rightarrow> pystr \<Rightarrow> entropy \<Rightarrow> nat \<Rightarrow> error + pystr" where
  "candidate H url rnd i = fst (generate_short_id H url 6 (drop_entropy (8 * i) rnd))"

subsection \<open>Calls made one after another\<close>

datatype request = Allocate pystr | Resolve pystr

datatype response = Allocated "error + pystr" | Resolved "pystr option"

fun serve ::
    "hash \<Rightarrow> request \<Rightarrow> url_shortener_service \<Rightarrow> entropy \<Rightarrow>
      response \<times> url_shortener_service \<times> entropy" where
  "serve H (Allocate url) svc rnd =
     (case create_short_url H url svc rnd of (r, svc', rnd') \<Rightarrow> (Allocated r, svc', rnd'))"
| "serve H (Resolve short_id) svc rnd = (Resolved (get_original_url svc short_id), svc, rnd)"

fun serve_all ::
    "hash \<Rightarrow> request list \<Rightarrow> url_shortener_service \<Rightarrow> entropy \<Rightarrow>
      response list \<times> url_shortener_service \<times> entropy" where
  "serve_all H [] svc rnd = ([], svc, rnd)"
| "serve_all H (q # qs) svc rnd =
     (case serve H q svc rnd of
        (r, svc', rnd') \<Rightarrow>
          (case serve_all H qs svc' rnd' of (rs, svc'', rnd'') \<Rightarrow> (r # rs, svc'', rnd'')))"

text \<open>The identifiers that a list of responses returned from successful allocations.\<close>

fun allocated_ids :: "response list \<Rightarrow> pystr list" where
  "allocated_ids [] = []"
| "allocated_ids (Allocated (Inr short_id) # rs) = short_id # allocated_ids rs"
| "allocated_ids (r # rs) = allocated_ids rs"

subsection \<open>Calls in flight together\<close>

text \<open>
  Several calls of \<open>create_short_url\<close> can share one service. The lock of the store
  makes each of \<open>exists\<close> and \<open>save\<close> one atomic step; it is released between the
  two, and the two awaits are where the callers' scheduler can let another call run
  (calls on several threads, or a store whose methods suspend). A call in flight is
  therefore in one of four places: about to run the attempts that are left (generate
  a candidate and await \<open>exists\<close>); after \<open>exists\<close> answered \<open>False\<close>, with the
  \<open>save\<close> of that candidate still to run; returned; or raised.
\<close>

datatype task =
    Attempting pystr "nat list"
  | Saving pystr pystr
  | Returned pystr
  | Raised error

fun task_step ::
    "hash \<Rightarrow> task \<Rightarrow> url_shortener_service \<Rightarrow> entropy \<Rightarrow>
      task \<times> url_shortener_service \<times> entropy" where
  "task_step H (Attempting original_url []) svc rnd =
     (Raised (RuntimeError (max_retries svc)), svc, rnd)"
| "task_step H (Attempting original_url (attempt # rest)) svc rnd =
     (case generate_short_id H original_url 6 rnd of
        (Inl e, rnd') \<Rightarrow> (Raised e, svc, rnd')
      | (Inr short_id, rnd') \<Rightarrow>
          if \<not> exists (storage svc) short_id
          then (Saving original_url short_id, svc, rnd')
          else (Attempting original_url rest, svc, rnd'))"
| "task_step H (Saving original_url short_id) svc rnd =
     (Returned short_id,
      svc\<lparr>storage := save (storage svc) short_id original_url\<rparr>, rnd)"
| "task_step H (Returned short_id) svc rnd = (Returned short_id, svc, rnd)"
| "task_step H (Raised e) svc rnd = (Raised e, svc, rnd)"

text \<open>
  The calls in flight, the service they share and the entropy. A schedule is the list
  of the calls' indices in the order in which they are given their next step.
\<close>

record system =
  tasks :: "task list"
  service :: url_shortener_service
  random :: entropy

definition step :: "hash \<Rightarrow> nat \<Rightarrow> system \<Rightarrow> system" where
  "step H i sys =
     (if i < length (tasks sys) then
        (case task_step H (tasks sys ! i) (service sys) (random sys) of
           (t, svc, rnd) \<Rightarrow> \<lparr>tasks = (tasks sys)[i := t], service = svc, random = rnd\<rparr>)
      else sys)"

fun run :: "hash \<Rightarrow> nat list \<Rightarrow> system \<Rightarrow> system" where
  "run H [] sys = sys"
| "run H (i # schedule) sys = run H schedule (step H i sys)"

definition start :: "pystr list \<Rightarrow> url_shortener_service \<Rightarrow> entropy \<Rightarrow> system" where
  "start urls svc rnd =
     \<lparr>tasks = map (\<lambda>url. Attempting url (py_range (max_retries svc))) urls,
      service = svc, random = rnd\<rparr>"

text \<open>What a finished call hands to its caller.\<close>

definition finished :: "error + pystr \<Rightarrow> task" where
  "finished r = (case r of Inl e \<Rightarrow> Raised e | Inr short_id \<Rightarrow> Returned short_id)"

section \<open>Sample inputs\<close>

text \<open>
  Concrete inputs for the worked examples. \<open>sample_hash\<close> stands in for the digest
  function there: it puts the sum of the hashed bytes into the first 64 bits of the
  digest. \<open>zero_entropy\<close> is a random source that only ever yields zero bytes,
  \<open>sample_entropy\<close> one whose bytes are zero but for the last byte of the first token,
  which is 1, and the last byte of the third token, which is 2, and \<open>late_entropy\<close> one
  that differs from \<open>zero_entropy\<close> from the ninth byte on.
\<close>

definition sample_hash :: hash where
  "sample_hash bs = of_nat (2 ^ 192 * sum_list (map unat bs))"

definition zero_entropy :: entropy where
  "zero_entropy i = 0"

definition sample_entropy :: entropy where
  "sample_entropy i = (if i = 7 then 1 else if i = 23 then 2 else 0)"

definition late_entropy :: entropy where
  "late_entropy i = (if i < 8 then 0 else 255)"

definition url_a :: pystr where
  "url_a = str ''https://example.com/a''"

definition url_b :: pystr where
  "url_b = str ''https://example.com/b''"

section \<open>Properties of the generator\<close>

subsection \<open>Hexadecimal text round trip\<close>

lemma length_hexlify: "length (hexlify k v) = k"
  by (induction k arbitrary: v) auto

lemma take_hexlify: "take j (hexlify (j + m) v) = hexlify j (v div 16 ^ m)"
proof (induction m arbitrary: v)
  case 0
  then show ?case by (simp add: length_hexlify)
next
  case (Suc m)
  have "take j (hexlify (j + Suc m) v) = take j (hexlify (j + m) (v div 16))"
    by (simp add: length_hexlify)
  also have "\<dots> = hexlify j (v div 16 div 16 ^ m)"
    by (rule Suc.IH)
  also have "v div 16 div 16 ^ m = v div 16 ^ Suc m"
    by (simp add: div_mult2_eq)
  finally show ?case .
qed

lemma hex_digit_table:
  "list_all (\<lambda>d. hex_value (hex_digit d) = Some (int d)) [0..<16]"
  by code_simp

lemma hex_digit_cases:
  "d < 16 \<Longrightarrow> hex_value (hex_digit d) = Some (int d)"
  using hex_digit_table by (simp add: list_all_iff)

lemma int16_from_append:
  "int16_from acc (xs @ [c]) =
     (case int16_from acc xs of Inl e \<Rightarrow> Inl e
      | Inr a \<Rightarrow> (case hex_value c of None \<Rightarrow> Inl ValueError | Some d \<Rightarrow> Inr (a * 16 + d)))"
  by (induction xs arbitrary: acc) (auto split: option.splits sum.splits)

lemma int16_from_hexlify:
  "int16_from acc (hexlify k v) = Inr (acc * 16 ^ k + int (v mod 16 ^ k))"
proof (induction k arbitrary: v)
  case 0
  then show ?case by simp
next
  case (Suc k)
  have m: "int (v mod (16 * 16 ^ k)) = 16 * int (v div 16 mod 16 ^ k) + int (v mod 16)"
    by (simp add: mod_mult2_eq)
  show ?case
    by (simp add: int16_from_append Suc.IH hex_digit_cases m algebra_simps)
qed

lemma hexlify_nonempty: "0 < k \<Longrightarrow> hexlify k v \<noteq> []"
  using length_hexlify [of k v] by auto

lemma int16_hexdigest_prefix:
  "int16 (take 16 (hexdigest d)) = Inr (int (unat d div 2 ^ 192))"
proof -
  have t: "take 16 (hexlify (16 + 48) (unat d)) = hexlify 16 (unat d div 16 ^ 48)"
    by (rule take_hexlify)
  have p: "(16::nat) ^ 48 = 2 ^ 192"
    by simp
  have "unat d < 2 ^ 256"
    using unsigned_less [of d] by simp
  then have lt: "unat d div 2 ^ 192 < 2 ^ 64"
    by (simp add: less_mult_imp_div_less)
  have q: "(16::nat) ^ 16 = 2 ^ 64"
    by simp
  show ?thesis
    using t lt by (simp add: hexdigest_def int16_def hexlify_nonempty int16_from_hexlify p q)
qed

lemma digest_prefix_value:
  "int16 (take 16 (hexdigest d)) = Inr (int (digest_prefix d))"
  by (simp add: int16_hexdigest_prefix digest_prefix_def)

lemma hex_digit_ascii: "hex_digit d < 0x80"
proof -
  have "list_all (\<lambda>c. c < 0x80) (str ''0123456789abcdef'')"
    by code_simp
  moreover have "hex_digit d \<in> set (str ''0123456789abcdef'')"
    unfolding hex_digit_def by (rule nth_mem) (simp add: str_def)
  ultimately show ?thesis
    by (simp add: list_all_iff)
qed

lemma hexlify_ascii: "c \<in> set (hexlify k v) \<Longrightarrow> c < 0x80"
  by (induction k arbitrary: v) (auto simp: hex_digit_ascii)

lemma token_hex_ascii: "c \<in> set (fst (token_hex n rnd)) \<Longrightarrow> c < 0x80"
  by (auto simp: token_hex_def dest: hexlify_ascii)

lemma length_token_hex: "length (fst (token_hex n rnd)) = 2 * n"
  by (simp add: token_hex_def length_concat comp_def length_hexlify sum_list_triv)

lemma encode_utf8_append:
  "encode_utf8 (a @ b) =
     (case encode_utf8 a of
        Inl e \<Rightarrow> Inl e
      | Inr x \<Rightarrow> (case encode_utf8 b of Inl e \<Rightarrow> Inl e | Inr y \<Rightarrow> Inr (x @ y)))"
  by (auto simp: encode_utf8_def)

lemma encode_utf8_ascii:
  "\<forall>c \<in> set s. c < 0x80 \<Longrightarrow> encode_utf8 s = Inr (ascii_bytes s)"
proof -
  assume a: "\<forall>c \<in> set s. c < 0x80"
  then have "\<not> (\<exists>c \<in> set s. surrogate c)"
    by (auto simp: surrogate_def)
  moreover from a have "concat (map utf8_bytes s) = map of_nat s"
    by (induction s) (auto simp: utf8_bytes_def)
  ultimately show ?thesis
    by (simp add: encode_utf8_def ascii_bytes_def)
qed

lemma encode_utf8_token:
  "encode_utf8 (url @ fst (token_hex n rnd)) =
     (case encode_utf8 url of
        Inl e \<Rightarrow> Inl e
      | Inr url_bytes \<Rightarrow> Inr (url_bytes @ ascii_bytes (fst (token_hex n rnd))))"
  using encode_utf8_ascii [of "fst (token_hex n rnd)"] token_hex_ascii [of _ n rnd]
  by (simp add: encode_utf8_append split: sum.splits)

lemma length_base62_chars: "length base62_chars = 62"
  by (simp add: base62_chars_def ascii_letters_def digits_def str_def)

lemma getitem_base62_chars:
  "0 \<le> h \<Longrightarrow> getitem base62_chars (h mod 62) = Inr [base62_chars ! (nat h mod 62)]"
  by (simp add: getitem_def length_base62_chars nat_mod_distrib)

lemma base62_loop_symbols:
  "0 \<le> h \<Longrightarrow>
   base62_loop xs h result =
     Inr (result @ map (\<lambda>c. [c]) (base62_symbols (length xs) (nat h)))"
proof (induction xs arbitrary: h result)
  case Nil
  then show ?case by simp
next
  case (Cons x xs)
  from Cons.prems have q: "0 \<le> h div 62"
    by simp
  from Cons.prems have n: "nat (h div 62) = nat h div 62"
    by (simp add: nat_div_distrib)
  show ?case
    using Cons.prems by (simp add: getitem_base62_chars Cons.IH [OF q] n)
qed

lemma join_singletons: "join (map (\<lambda>c. [c]) s) = s"
  by (induction s) (simp_all add: join_def)

lemma generate_short_id_eq:
  "generate_short_id H url len rnd =
     (case encode_utf8 url of
        Inl e \<Rightarrow> (Inl e, snd (token_hex 8 rnd))
      | Inr url_bytes \<Rightarrow>
          (Inr (generate_spec H url_bytes (ascii_bytes (fst (token_hex 8 rnd))) (nat len)),
           snd (token_hex 8 rnd)))"
  by (simp add: generate_short_id_def case_prod_beta encode_utf8_token digest_prefix_value
      base62_loop_symbols join_singletons generate_spec_def py_range_def
      split: sum.splits)

section \<open>Properties of one allocation\<close>

lemma snd_generate_short_id: "snd (generate_short_id H url len rnd) = drop_entropy 8 rnd"
  by (simp add: generate_short_id_eq token_hex_def drop_entropy_def split: sum.splits)

lemma drop_entropy_0: "drop_entropy 0 rnd = rnd"
  by (simp add: drop_entropy_def)

lemma drop_entropy_drop: "drop_entropy j (drop_entropy k rnd) = drop_entropy (k + j) rnd"
  by (simp add: drop_entropy_def ac_simps)

lemma encode_utf8_error: "encode_utf8 s = Inl e \<Longrightarrow> e = UnicodeEncodeError"
  by (simp add: encode_utf8_def split: if_splits)

lemma generate_short_id_error:
  "fst (generate_short_id H url len rnd) = Inl e \<Longrightarrow> e = UnicodeEncodeError"
  by (auto simp: generate_short_id_eq split: sum.splits dest: encode_utf8_error)

lemma candidate_error: "candidate H url rnd i = Inl e \<Longrightarrow> e = UnicodeEncodeError"
  unfolding candidate_def by (rule generate_short_id_error)

lemma candidate_0: "candidate H url rnd 0 = fst (generate_short_id H url 6 rnd)"
  by (simp add: candidate_def drop_entropy_0)

lemma candidate_Suc: "candidate H url (drop_entropy 8 rnd) i = candidate H url rnd (Suc i)"
  by (simp add: candidate_def drop_entropy_drop add.commute)

lemma attempt_loop_Cons:
  "attempt_loop H url (a # rest) svc rnd =
     (case candidate H url rnd 0 of
        Inl e \<Rightarrow> (Inl e, svc, drop_entropy 8 rnd)
      | Inr short_id \<Rightarrow>
          if \<not> exists (storage svc) short_id
          then (Inr short_id, svc\<lparr>storage := save (storage svc) short_id url\<rparr>,
                drop_entropy 8 rnd)
          else attempt_loop H url rest svc (drop_entropy 8 rnd))"
  using snd_generate_short_id [of H url 6 rnd]
  by (cases "generate_short_id H url 6 rnd") (auto simp: candidate_0 split: sum.splits)

lemma attempt_loop_error:
  "fst (attempt_loop H url xs svc rnd) = Inl e \<Longrightarrow>
   fst (snd (attempt_loop H url xs svc rnd)) = svc"
proof (induction xs arbitrary: rnd)
  case Nil
  then show ?case by simp
next
  case (Cons a xs)
  then show ?case
    by (simp only: attempt_loop_Cons) (auto split: sum.splits if_splits)
qed

lemma attempt_loop_success:
  "fst (attempt_loop H url xs svc rnd) = Inr short_id \<Longrightarrow>
   \<not> exists (storage svc) short_id \<and>
   fst (snd (attempt_loop H url xs svc rnd)) =
     svc\<lparr>storage := save (storage svc) short_id url\<rparr>"
proof (induction xs arbitrary: rnd)
  case Nil
  then show ?case by simp
next
  case (Cons a xs)
  then show ?case
    by (simp only: attempt_loop_Cons) (auto split: sum.splits if_splits)
qed

lemma attempt_loop_exhausted:
  "\<forall>i < length xs. \<exists>c. candidate H url rnd i = Inr c \<and> exists (storage svc) c \<Longrightarrow>
   attempt_loop H url xs svc rnd =
     (Inl (RuntimeError (max_retries svc)), svc, drop_entropy (8 * length xs) rnd)"
proof (induction xs arbitrary: rnd)
  case Nil
  then show ?case by (simp add: drop_entropy_0)
next
  case (Cons a xs)
  from Cons.prems obtain c where c: "candidate H url rnd 0 = Inr c" "exists (storage svc) c"
    by auto
  have "\<forall>i < length xs. \<exists>c. candidate H url (drop_entropy 8 rnd) i = Inr c \<and> exists (storage svc) c"
    using Cons.prems by (auto simp: candidate_Suc)
  then have "attempt_loop H url xs svc (drop_entropy 8 rnd) =
     (Inl (RuntimeError (max_retries svc)), svc,
      drop_entropy (8 * length xs) (drop_entropy 8 rnd))"
    by (rule Cons.IH)
  then show ?case
    using c by (simp only: attempt_loop_Cons) (simp add: drop_entropy_drop)
qed

lemma attempt_loop_first_free:
  "i < length xs \<Longrightarrow> candidate H url rnd i = Inr c \<Longrightarrow> \<not> exists (storage svc) c \<Longrightarrow>
   \<forall>j < i. \<exists>c'. candidate H url rnd j = Inr c' \<and> exists (storage svc) c' \<Longrightarrow>
   attempt_loop H url xs svc rnd =
     (Inr c, svc\<lparr>storage := save (storage svc) c url\<rparr>, drop_entropy (8 * Suc i) rnd)"
proof (induction xs arbitrary: rnd i)
  case Nil
  then show ?case by simp
next
  case (Cons a xs)
  show ?case
  proof (cases i)
    case 0
    with Cons.prems show ?thesis
      by (simp only: attempt_loop_Cons) simp
  next
    case (Suc k)
    with Cons.prems obtain c0 where c0: "candidate H url rnd 0 = Inr c0" "exists (storage svc) c0"
      by auto
    have k: "k < length xs"
      using Cons.prems(1) Suc by simp
    have ck: "candidate H url (drop_entropy 8 rnd) k = Inr c"
      using Cons.prems(2) Suc by (simp add: candidate_Suc)
    have before: "\<forall>j < k. \<exists>c'. candidate H url (drop_entropy 8 rnd) j = Inr c' \<and> exists (storage svc) c'"
      using Cons.prems(4) Suc by (auto simp: candidate_Suc)
    have "attempt_loop H url xs svc (drop_entropy 8 rnd) =
       (Inr c, svc\<lparr>storage := save (storage svc) c url\<rparr>,
        drop_entropy (8 * Suc k) (drop_entropy 8 rnd))"
      using k ck Cons.prems(3) before by (rule Cons.IH)
    then show ?thesis
      using c0 Suc by (simp only: attempt_loop_Cons) (simp add: drop_entropy_drop)
  qed
qed

lemma attempt_loop_runtime_error:
  "fst (attempt_loop H url xs svc rnd) = Inl (RuntimeError k) \<Longrightarrow>
   \<forall>i < length xs. \<exists>c. candidate H url rnd i = Inr c \<and> exists (storage svc) c"
proof (induction xs arbitrary: rnd)
  case Nil
  then show ?case by simp
next
  case (Cons a xs)
  from Cons.prems obtain c where c: "candidate H url rnd 0 = Inr c" "exists (storage svc) c"
    and rest: "fst (attempt_loop H url xs svc (drop_entropy 8 rnd)) = Inl (RuntimeError k)"
    by (simp only: attempt_loop_Cons)
       (auto split: sum.splits if_splits dest: candidate_error)
  from rest have ih: "\<forall>i < length xs. \<exists>c. candidate H url (drop_entropy 8 rnd) i = Inr c \<and> exists (storage svc) c"
    by (rule Cons.IH)
  show ?case
  proof (intro allI impI)
    fix i assume "i < length (a # xs)"
    then show "\<exists>c. candidate H url rnd i = Inr c \<and> exists (storage svc) c"
      using c ih by (cases i) (auto simp: candidate_Suc)
  qed
qed

section \<open>The generator follows the algorithm of the specification\<close>

text \<open>
  Claim C5. \<open>generate_short_id\<close> computes its output by the algorithm of the
  specification. The string that is hashed is the URL followed by the token, so the
  hashed bytes are the bytes of the URL followed by a random byte sequence (the sixteen
  ASCII hexadecimal digits of eight fresh random bytes); the integer that the code
  parses from the first 16 hexadecimal characters of the digest is the non-negative
  value of the first 64 bits of the digest; and the result is the string of
  \<open>generate_spec\<close>: \<open>length\<close> times the symbol at the remainder modulo 62,
  least-significant digit first, continuing with the quotient. When the URL cannot be
  encoded, both sides are the exception of the encoder.
\<close>

theorem generate_short_id_algorithm:
  "int16 (take 16 (hexdigest d)) = Inr (int (digest_prefix d)) \<and>
   generate_short_id H url len rnd =
     (case encode_utf8 url of
        Inl e \<Rightarrow> (Inl e, snd (token_hex 8 rnd))
      | Inr url_bytes \<Rightarrow>
          (Inr (generate_spec H url_bytes (ascii_bytes (fst (token_hex 8 rnd))) (nat len)),
           snd (token_hex 8 rnd)))"
  using digest_prefix_value [of d] generate_short_id_eq [of H url len rnd] by simp

section \<open>Evaluating the sample inputs\<close>

lemma pow_192_64: "(2::nat) ^ 192 * 2 ^ 64 = 2 ^ 256"
  by simp

lemma digest_prefix_sample_hash:
  "sum_list (map unat bs) < 2 ^ 64 \<Longrightarrow> digest_prefix (sample_hash bs) = sum_list (map unat bs)"
proof -
  assume lt: "sum_list (map unat bs) < 2 ^ 64"
  let ?s = "sum_list (map unat bs)"
  have "2 ^ 192 * ?s < (2::nat) ^ 192 * 2 ^ 64"
    using lt by (rule mult_strict_left_mono) simp
  then have b: "2 ^ 192 * ?s < (2::nat) ^ LENGTH(256)"
    by (simp only: pow_192_64) simp
  have "unat (of_nat (2 ^ 192 * ?s) :: 256 word) = 2 ^ 192 * ?s"
    using b by (rule of_nat_inverse [OF refl])
  then have "digest_prefix (sample_hash bs) = (2 ^ 192 * ?s) div 2 ^ 192"
    by (simp only: digest_prefix_def sample_hash_def)
  then show ?thesis
    by simp
qed

lemma upt_8: "[0..<8] = [0, 1, 2, 3, 4, 5, 6, 7::nat]"
  by (simp add: upt_rec)

lemma token_hex_8:
  "fst (token_hex 8 rnd) = concat (map (\<lambda>i. hexlify 2 (unat (rnd i))) [0, 1, 2, 3, 4, 5, 6, 7])"
  by (simp only: token_hex_def upt_8 fst_conv)

lemma hexlify_2: "hexlify 2 v = [hex_digit (v div 16 mod 16), hex_digit (v mod 16)]"
  by (simp add: numeral_2_eq_2)

lemma six: "(6::nat) = Suc (Suc (Suc (Suc (Suc (Suc 0)))))"
  by simp

lemma base62_symbols_6:
  "base62_symbols 6 v =
     [base62_chars ! (v mod 62), base62_chars ! (v div 62 mod 62),
      base62_chars ! (v div 62 div 62 mod 62), base62_chars ! (v div 62 div 62 div 62 mod 62),
      base62_chars ! (v div 62 div 62 div 62 div 62 mod 62),
      base62_chars ! (v div 62 div 62 div 62 div 62 div 62 mod 62)]"
  by (simp only: six base62_symbols.simps)

lemma token_zero: "fst (token_hex 8 zero_entropy) = str ''0000000000000000''"
  by (simp add: token_hex_8 hexlify_2 zero_entropy_def hex_digit_def str_def)

lemma token_sample: "fst (token_hex 8 sample_entropy) = str ''0000000000000001''"
  by (simp add: token_hex_8 hexlify_2 sample_entropy_def hex_digit_def str_def)

lemma generate_sample_hash:
  "encode_utf8 url = Inr ub \<Longrightarrow> fst (token_hex 8 rnd) = tok \<Longrightarrow>
   sum_list (map unat (ub @ ascii_bytes tok)) = s \<Longrightarrow> s < 2 ^ 64 \<Longrightarrow>
   fst (generate_short_id sample_hash url 6 rnd) = Inr (base62_symbols 6 s)"
  by (simp add: generate_short_id_eq generate_spec_def digest_prefix_sample_hash)

lemma encode_url_a: "encode_utf8 url_a = Inr (ascii_bytes url_a)"
  by (rule encode_utf8_ascii) (simp add: url_a_def str_def)

lemma encode_url_b: "encode_utf8 url_b = Inr (ascii_bytes url_b)"
  by (rule encode_utf8_ascii) (simp add: url_b_def str_def)

lemma sum_a_zero:
  "sum_list (map unat (ascii_bytes url_a @ ascii_bytes (str ''0000000000000000''))) = 2740"
  by (simp add: ascii_bytes_def url_a_def str_def)

lemma base62_2740: "base62_symbols 6 2740 = str ''mSaaaa''"
  by (simp add: base62_symbols_6 base62_chars_def ascii_letters_def digits_def str_def)

lemma generate_a_zero:
  "fst (generate_short_id sample_hash url_a 6 zero_entropy) = Inr (str ''mSaaaa'')"
  using generate_sample_hash [OF encode_url_a token_zero sum_a_zero] base62_2740 by simp

section \<open>One allocation and its resolution\<close>

lemma py_range_pos: "0 < n \<Longrightarrow> py_range n = 0 # [1..<nat n]"
  by (simp add: py_range_def upt_conv_Cons)

lemma length_py_range: "length (py_range n) = nat n"
  by (simp add: py_range_def)

lemma create_first_free:
  "i < nat (max_retries svc) \<Longrightarrow> candidate H url rnd i = Inr c \<Longrightarrow>
   \<not> exists (storage svc) c \<Longrightarrow>
   \<forall>j < i. \<exists>c'. candidate H url rnd j = Inr c' \<and> exists (storage svc) c' \<Longrightarrow>
   create_short_url H url svc rnd =
     (Inr c, svc\<lparr>storage := save (storage svc) c url\<rparr>, drop_entropy (8 * Suc i) rnd)"
  unfolding create_short_url_def
  by (rule attempt_loop_first_free) (simp_all add: length_py_range)

lemma create_exhausted:
  "\<forall>i < nat (max_retries svc). \<exists>c. candidate H url rnd i = Inr c \<and> exists (storage svc) c \<Longrightarrow>
   create_short_url H url svc rnd =
     (Inl (RuntimeError (max_retries svc)), svc, drop_entropy (8 * nat (max_retries svc)) rnd)"
  unfolding create_short_url_def
  using attempt_loop_exhausted [of "py_range (max_retries svc)" H url rnd svc]
  by (simp add: length_py_range)

lemma create_runtime_error:
  "fst (create_short_url H url svc rnd) = Inl (RuntimeError k) \<Longrightarrow>
   \<forall>i < nat (max_retries svc). \<exists>c. candidate H url rnd i = Inr c \<and> exists (storage svc) c"
  unfolding create_short_url_def
  using attempt_loop_runtime_error [of H url "py_range (max_retries svc)" svc rnd k]
  by (simp add: length_py_range)

lemma create_error:
  "fst (create_short_url H url svc rnd) = Inl e \<Longrightarrow>
   fst (snd (create_short_url H url svc rnd)) = svc"
  unfolding create_short_url_def by (rule attempt_loop_error)

lemma create_success:
  "fst (create_short_url H url svc rnd) = Inr short_id \<Longrightarrow>
   \<not> exists (storage svc) short_id \<and>
   fst (snd (create_short_url H url svc rnd)) =
     svc\<lparr>storage := save (storage svc) short_id url\<rparr>"
  unfolding create_short_url_def by (rule attempt_loop_success)

lemma candidate_uniform:
  "candidate H url rnd i = Inr c \<Longrightarrow> \<exists>c'. candidate H url rnd j = Inr c'"
  by (auto simp: candidate_def generate_short_id_eq split: sum.splits)

lemma drop_zero_entropy: "drop_entropy k zero_entropy = zero_entropy"
  by (simp add: drop_entropy_def zero_entropy_def fun_eq_iff)

lemma candidate_a_zero: "candidate sample_hash url_a zero_entropy i = Inr (str ''mSaaaa'')"
  by (simp add: candidate_def drop_zero_entropy generate_a_zero)

text \<open>
  Claim C2. If \<open>create_short_url\<close> on a URL \<open>u\<close> returns an identifier without
  raising, then \<open>get_original_url\<close> on that identifier, asked of the service as the
  call left it, returns exactly \<open>u\<close>. This holds for every URL, the valid ones among
  them.
\<close>

theorem resolve_after_allocate:
  "fst (create_short_url H u svc rnd) = Inr short_id \<Longrightarrow>
   get_original_url (fst (snd (create_short_url H u svc rnd))) short_id = Some u"
  by (drule create_success) (simp add: get_original_url_def get_def save_def)

lemma create_a_empty:
  "create_short_url sample_hash url_a (new_service Map.empty) zero_entropy =
     (Inr (str ''mSaaaa''),
      (new_service Map.empty)\<lparr>storage := save Map.empty (str ''mSaaaa'') url_a\<rparr>,
      zero_entropy)"
  using create_first_free [of 0 "new_service Map.empty" sample_hash url_a zero_entropy "str ''mSaaaa''"]
  by (simp add: candidate_a_zero new_service_def exists_def drop_zero_entropy)

theorem resolve_after_allocate_witness:
  "fst (create_short_url sample_hash url_a (new_service Map.empty) zero_entropy) =
     Inr (str ''mSaaaa'') \<and>
   get_original_url
     (fst (snd (create_short_url sample_hash url_a (new_service Map.empty) zero_entropy)))
     (str ''mSaaaa'') = Some url_a"
proof -
  have h: "fst (create_short_url sample_hash url_a (new_service Map.empty) zero_entropy) =
      Inr (str ''mSaaaa'')"
    by (simp add: create_a_empty)
  from h resolve_after_allocate [OF h] show ?thesis
    by simp
qed

text \<open>
  Claim C9. When \<open>create_short_url\<close> fails with the \<open>RuntimeError\<close> of exhausted
  retries, the service and its store are exactly as they were before the call: the
  failing path performs no \<open>save\<close>.
\<close>

theorem failed_allocation_keeps_store:
  "fst (create_short_url H url svc rnd) = Inl (RuntimeError k) \<Longrightarrow>
   fst (snd (create_short_url H url svc rnd)) = svc \<and>
   storage (fst (snd (create_short_url H url svc rnd))) = storage svc"
  by (drule create_error) simp

lemma create_a_taken:
  "create_short_url sample_hash url_a (new_service (save Map.empty (str ''mSaaaa'') url_b))
     zero_entropy =
     (Inl (RuntimeError 5), new_service (save Map.empty (str ''mSaaaa'') url_b), zero_entropy)"
  using create_exhausted [of "new_service (save Map.empty (str ''mSaaaa'') url_b)"
      sample_hash url_a zero_entropy]
  by (simp add: candidate_a_zero new_service_def exists_def save_def drop_zero_entropy)

theorem failed_allocation_keeps_store_witness:
  "fst (create_short_url sample_hash url_a
          (new_service (save Map.empty (str ''mSaaaa'') url_b)) zero_entropy) =
     Inl (RuntimeError 5) \<and>
   storage (fst (snd (create_short_url sample_hash url_a
          (new_service (save Map.empty (str ''mSaaaa'') url_b)) zero_entropy))) =
     save Map.empty (str ''mSaaaa'') url_b"
proof -
  have h: "fst (create_short_url sample_hash url_a
          (new_service (save Map.empty (str ''mSaaaa'') url_b)) zero_entropy) =
     Inl (RuntimeError 5)"
    by (simp add: create_a_taken)
  from h failed_allocation_keeps_store [OF h] show ?thesis
    by (simp add: new_service_def)
qed

subsection \<open>The retry budget\<close>

text \<open>
  Claim C6. \<open>create_short_url\<close> raises the \<open>RuntimeError\<close> of exhausted retries if and
  only if every one of the \<open>max_retries\<close> candidates that its attempts generate one after
  another is already in the store; it has then drawn the entropy of exactly
  \<open>max_retries\<close> attempts, and the error carries \<open>max_retries\<close>. If the candidate of
  some attempt is free, the call returns the first free candidate without raising, and
  has saved it with the URL. The default of \<open>max_retries\<close> is 5.
\<close>

theorem create_short_url_retries:
  "((\<exists>k. fst (create_short_url H url svc rnd) = Inl (RuntimeError k)) \<longleftrightarrow>
      (\<forall>i < nat (max_retries svc).
         \<exists>c. candidate H url rnd i = Inr c \<and> exists (storage svc) c)) \<and>
   (\<forall>k. fst (create_short_url H url svc rnd) = Inl (RuntimeError k) \<longrightarrow>
      k = max_retries svc \<and>
      snd (snd (create_short_url H url svc rnd)) =
        drop_entropy (8 * nat (max_retries svc)) rnd) \<and>
   (\<forall>i c. i < nat (max_retries svc) \<and> candidate H url rnd i = Inr c \<and>
      \<not> exists (storage svc) c \<and>
      (\<forall>j < i. \<exists>c'. candidate H url rnd j = Inr c' \<and> exists (storage svc) c') \<longrightarrow>
      create_short_url H url svc rnd =
        (Inr c, svc\<lparr>storage := save (storage svc) c url\<rparr>, drop_entropy (8 * Suc i) rnd)) \<and>
   ((\<exists>i < nat (max_retries svc). \<exists>c. candidate H url rnd i = Inr c \<and>
        \<not> exists (storage svc) c) \<longrightarrow>
      (\<exists>c. fst (create_short_url H url svc rnd) = Inr c \<and> \<not> exists (storage svc) c \<and>
         get_original_url (fst (snd (create_short_url H url svc rnd))) c = Some url)) \<and>
   max_retries (new_service st) = 5"
proof (intro conjI)
  show "(\<exists>k. fst (create_short_url H url svc rnd) = Inl (RuntimeError k)) \<longleftrightarrow>
      (\<forall>i < nat (max_retries svc).
         \<exists>c. candidate H url rnd i = Inr c \<and> exists (storage svc) c)"
  proof
    assume "\<exists>k. fst (create_short_url H url svc rnd) = Inl (RuntimeError k)"
    then show "\<forall>i < nat (max_retries svc).
         \<exists>c. candidate H url rnd i = Inr c \<and> exists (storage svc) c"
      using create_runtime_error by blast
  next
    assume "\<forall>i < nat (max_retries svc).
         \<exists>c. candidate H url rnd i = Inr c \<and> exists (storage svc) c"
    then show "\<exists>k. fst (create_short_url H url svc rnd) = Inl (RuntimeError k)"
      by (simp add: create_exhausted)
  qed
next
  show "\<forall>k. fst (create_short_url H url svc rnd) = Inl (RuntimeError k) \<longrightarrow>
      k = max_retries svc \<and>
      snd (snd (create_short_url H url svc rnd)) =
        drop_entropy (8 * nat (max_retries svc)) rnd"
  proof (intro allI impI)
    fix k assume e: "fst (create_short_url H url svc rnd) = Inl (RuntimeError k)"
    then have "\<forall>i < nat (max_retries svc).
         \<exists>c. candidate H url rnd i = Inr c \<and> exists (storage svc) c"
      by (rule create_runtime_error)
    then have "create_short_url H url svc rnd =
       (Inl (RuntimeError (max_retries svc)), svc,
        drop_entropy (8 * nat (max_retries svc)) rnd)"
      by (rule create_exhausted)
    with e show "k = max_retries svc \<and>
      snd (snd (create_short_url H url svc rnd)) =
        drop_entropy (8 * nat (max_retries svc)) rnd"
      by simp
  qed
next
  show "\<forall>i c. i < nat (max_retries svc) \<and> candidate H url rnd i = Inr c \<and>
      \<not> exists (storage svc) c \<and>
      (\<forall>j < i. \<exists>c'. candidate H url rnd j = Inr c' \<and> exists (storage svc) c') \<longrightarrow>
      create_short_url H url svc rnd =
        (Inr c, svc\<lparr>storage := save (storage svc) c url\<rparr>, drop_entropy (8 * Suc i) rnd)"
    using create_first_free by blast
next
  show "(\<exists>i < nat (max_retries svc). \<exists>c. candidate H url rnd i = Inr c \<and>
        \<not> exists (storage svc) c) \<longrightarrow>
      (\<exists>c. fst (create_short_url H url svc rnd) = Inr c \<and> \<not> exists (storage svc) c \<and>
         get_original_url (fst (snd (create_short_url H url svc rnd))) c = Some url)"
  proof
    assume "\<exists>i < nat (max_retries svc). \<exists>c. candidate H url rnd i = Inr c \<and>
        \<not> exists (storage svc) c"
    then have ex: "\<exists>i. i < nat (max_retries svc) \<and>
        (\<exists>c. candidate H url rnd i = Inr c \<and> \<not> exists (storage svc) c)"
      by blast
    define m where "m = (LEAST i. i < nat (max_retries svc) \<and>
        (\<exists>c. candidate H url rnd i = Inr c \<and> \<not> exists (storage svc) c))"
    from ex have m: "m < nat (max_retries svc) \<and>
        (\<exists>c. candidate H url rnd m = Inr c \<and> \<not> exists (storage svc) c)"
      unfolding m_def by (rule LeastI_ex)
    then obtain c where c: "candidate H url rnd m = Inr c" "\<not> exists (storage svc) c"
      by blast
    have before: "\<forall>j < m. \<exists>c'. candidate H url rnd j = Inr c' \<and> exists (storage svc) c'"
    proof (intro allI impI)
      fix j assume j: "j < m"
      from c(1) obtain c' where c': "candidate H url rnd j = Inr c'"
        using candidate_uniform by blast
      have "\<not> (j < nat (max_retries svc) \<and>
        (\<exists>c. candidate H url rnd j = Inr c \<and> \<not> exists (storage svc) c))"
        using j unfolding m_def by (rule not_less_Least)
      with j m c' show "\<exists>c'. candidate H url rnd j = Inr c' \<and> exists (storage svc) c'"
        by auto
    qed
    have "create_short_url H url svc rnd =
        (Inr c, svc\<lparr>storage := save (storage svc) c url\<rparr>, drop_entropy (8 * Suc m) rnd)"
      using m c before by (intro create_first_free) simp_all
    with c(2) show "\<exists>c. fst (create_short_url H url svc rnd) = Inr c \<and>
         \<not> exists (storage svc) c \<and>
         get_original_url (fst (snd (create_short_url H url svc rnd))) c = Some url"
      by (simp add: get_original_url_def get_def save_def)
  qed
next
  show "max_retries (new_service st) = 5"
    by (simp add: new_service_def)
qed

theorem create_short_url_retries_witness:
  "fst (create_short_url sample_hash url_a
          (new_service (save Map.empty (str ''mSaaaa'') url_b)) zero_entropy) =
     Inl (RuntimeError 5) \<and>
   create_short_url sample_hash url_a (new_service Map.empty) zero_entropy =
     (Inr (str ''mSaaaa''),
      (new_service Map.empty)\<lparr>storage := save Map.empty (str ''mSaaaa'') url_a\<rparr>,
      zero_entropy)"
proof -
  let ?taken = "new_service (save Map.empty (str ''mSaaaa'') url_b)"
  have all: "\<forall>i < nat (max_retries ?taken).
      \<exists>c. candidate sample_hash url_a zero_entropy i = Inr c \<and> exists (storage ?taken) c"
    by (simp add: candidate_a_zero new_service_def exists_def save_def)
  have "\<exists>k. fst (create_short_url sample_hash url_a ?taken zero_entropy) = Inl (RuntimeError k)"
    using create_short_url_retries [of sample_hash url_a ?taken zero_entropy Map.empty] all
    by blast
  then obtain k where k: "fst (create_short_url sample_hash url_a ?taken zero_entropy) =
      Inl (RuntimeError k)"
    by blast
  then have "k = max_retries ?taken"
    using create_short_url_retries [of sample_hash url_a ?taken zero_entropy Map.empty]
    by blast
  with k have first: "fst (create_short_url sample_hash url_a ?taken zero_entropy) =
      Inl (RuntimeError 5)"
    by (simp add: new_service_def)
  have free: "0 < nat (max_retries (new_service Map.empty)) \<and>
      candidate sample_hash url_a zero_entropy 0 = Inr (str ''mSaaaa'') \<and>
      \<not> exists (storage (new_service Map.empty)) (str ''mSaaaa'') \<and>
      (\<forall>j < 0. \<exists>c'. candidate sample_hash url_a zero_entropy j = Inr c' \<and>
          exists (storage (new_service Map.empty)) c')"
    by (simp add: candidate_a_zero new_service_def exists_def)
  have "create_short_url sample_hash url_a (new_service Map.empty) zero_entropy =
     (Inr (str ''mSaaaa''),
      (new_service Map.empty)\<lparr>storage := save (storage (new_service Map.empty))
          (str ''mSaaaa'') url_a\<rparr>,
      drop_entropy (8 * Suc 0) zero_entropy)"
    using create_short_url_retries
      [of sample_hash url_a "new_service Map.empty" zero_entropy Map.empty] free
    by blast
  then have second: "create_short_url sample_hash url_a (new_service Map.empty) zero_entropy =
     (Inr (str ''mSaaaa''),
      (new_service Map.empty)\<lparr>storage := save Map.empty (str ''mSaaaa'') url_a\<rparr>,
      zero_entropy)"
    by (simp add: drop_zero_entropy new_service_def)
  from first second show ?thesis
    by (rule conjI)
qed

subsection \<open>Resolution\<close>

text \<open>
  Claim C7. For an identifier with no mapping in the store, \<open>get_original_url\<close> returns
  \<open>None\<close>, the explicit not-found result; for a mapped identifier it returns the target
  associated with it. The function has no raising path: its result is an optional
  string in every case.
\<close>

theorem get_original_url_found_or_none:
  "(\<not> exists (storage svc) short_id \<longrightarrow> get_original_url svc short_id = None) \<and>
   (storage svc short_id = Some target \<longrightarrow> get_original_url svc short_id = Some target)"
  by (auto simp: get_original_url_def get_def exists_def)

theorem get_original_url_found_or_none_witness:
  "\<not> exists (storage (new_service (save Map.empty (str ''mSaaaa'') url_a)))
       (str ''doesNotExist'') \<and>
   get_original_url (new_service (save Map.empty (str ''mSaaaa'') url_a))
       (str ''doesNotExist'') = None \<and>
   storage (new_service (save Map.empty (str ''mSaaaa'') url_a)) (str ''mSaaaa'') =
       Some url_a \<and>
   get_original_url (new_service (save Map.empty (str ''mSaaaa'') url_a)) (str ''mSaaaa'') =
       Some url_a"
proof -
  let ?svc = "new_service (save Map.empty (str ''mSaaaa'') url_a)"
  have absent: "\<not> exists (storage ?svc) (str ''doesNotExist'')"
    by (simp add: new_service_def exists_def save_def str_def)
  have present: "storage ?svc (str ''mSaaaa'') = Some url_a"
    by (simp add: new_service_def save_def)
  from absent present
    get_original_url_found_or_none [of ?svc "str ''doesNotExist''" url_a]
    get_original_url_found_or_none [of ?svc "str ''mSaaaa''" url_a]
  show ?thesis
    by blast
qed

subsection \<open>Targets are never changed\<close>

lemma serve_keeps_targets:
  "storage svc short_id = Some target \<Longrightarrow>
   storage (fst (snd (serve H q svc rnd))) short_id = Some target"
proof (cases q)
  case (Allocate url)
  assume mapped: "storage svc short_id = Some target"
  show ?thesis
  proof (cases "fst (create_short_url H url svc rnd)")
    case (Inl e)
    then have "fst (snd (create_short_url H url svc rnd)) = svc"
      by (rule create_error)
    with mapped Allocate show ?thesis
      by (simp add: case_prod_beta)
  next
    case (Inr new_id)
    then have new: "\<not> exists (storage svc) new_id"
      and after: "fst (snd (create_short_url H url svc rnd)) =
        svc\<lparr>storage := save (storage svc) new_id url\<rparr>"
      using create_success by blast+
    from new mapped have "new_id \<noteq> short_id"
      by (auto simp: exists_def)
    with mapped after Allocate show ?thesis
      by (simp add: case_prod_beta save_def)
  qed
next
  case (Resolve x)
  assume "storage svc short_id = Some target"
  with Resolve show ?thesis by simp
qed

lemma serve_all_keeps_targets:
  "storage svc short_id = Some target \<Longrightarrow>
   storage (fst (snd (serve_all H requests svc rnd))) short_id = Some target"
proof (induction requests arbitrary: svc rnd)
  case Nil
  then show ?case by simp
next
  case (Cons q qs)
  from Cons.prems have "storage (fst (snd (serve H q svc rnd))) short_id = Some target"
    by (rule serve_keeps_targets)
  then have "storage (fst (snd (serve_all H qs (fst (snd (serve H q svc rnd)))
      (snd (snd (serve H q svc rnd)))))) short_id = Some target"
    by (rule Cons.IH)
  then show ?case
    by (simp add: case_prod_beta)
qed

text \<open>
  For operations made one after another, a target never changes: from every state of
  the service, after any sequence of allocations and resolutions an identifier that
  was mapped resolves to the same target.
\<close>

lemma sequential_targets_never_change:
  "get_original_url svc short_id = Some target \<Longrightarrow>
   get_original_url (fst (snd (serve_all H requests svc rnd))) short_id = Some target"
  using serve_all_keeps_targets [of svc short_id target H requests rnd]
  by (simp add: get_original_url_def get_def)

section \<open>Determinism, length and alphabet of the generator\<close>

text \<open>
  Claim C10. \<open>generate_short_id\<close> is deterministic once its entropy is fixed: two calls
  with the same URL and length that draw the same token from the random source return
  the same result, whatever else the random source holds. (The function reads nothing
  else: its arguments are the URL and the length, and the digest function is fixed.)
\<close>

theorem generate_short_id_deterministic:
  "fst (token_hex 8 rnd1) = fst (token_hex 8 rnd2) \<Longrightarrow>
   fst (generate_short_id H url len rnd1) = fst (generate_short_id H url len rnd2)"
  by (simp add: generate_short_id_eq split: sum.splits)

lemma token_late: "fst (token_hex 8 late_entropy) = str ''0000000000000000''"
  by (simp add: token_hex_8 hexlify_2 late_entropy_def hex_digit_def str_def)

theorem generate_short_id_deterministic_witness:
  "fst (token_hex 8 zero_entropy) = fst (token_hex 8 late_entropy) \<and>
   zero_entropy 8 \<noteq> late_entropy 8 \<and>
   fst (generate_short_id sample_hash url_a 6 zero_entropy) =
     fst (generate_short_id sample_hash url_a 6 late_entropy)"
proof -
  have h: "fst (token_hex 8 zero_entropy) = fst (token_hex 8 late_entropy)"
    by (simp add: token_zero token_late)
  have d: "zero_entropy 8 \<noteq> late_entropy 8"
    by (simp add: zero_entropy_def late_entropy_def)
  from h d generate_short_id_deterministic [OF h] show ?thesis
    by blast
qed

lemma length_base62_symbols: "length (base62_symbols k v) = k"
  by (induction k arbitrary: v) auto

lemma set_base62_symbols: "set (base62_symbols k v) \<subseteq> set base62_chars"
proof (induction k arbitrary: v)
  case 0
  then show ?case by simp
next
  case (Suc k)
  have "v mod 62 < length base62_chars"
    by (simp add: length_base62_chars)
  then have "base62_chars ! (v mod 62) \<in> set base62_chars"
    by (rule nth_mem)
  with Suc.IH [of "v div 62"] show ?case
    by simp
qed

lemma base62_chars_upt: "base62_chars = [97..<123] @ [65..<91] @ [48..<58]"
  by (simp add: base62_chars_def ascii_letters_def digits_def str_def upt_rec)

lemma set_base62_chars: "set base62_chars = {97..122} \<union> {65..90} \<union> {48..57}"
proof -
  have "set base62_chars = {97..<123} \<union> ({65..<91} \<union> {48..<58})"
    by (simp only: base62_chars_upt set_append set_upt)
  also have "\<dots> = {97..122} \<union> {65..90} \<union> {48..57}"
    by auto
  finally show ?thesis .
qed

lemma distinct_base62_chars: "distinct base62_chars"
proof -
  have "{97..<123} \<inter> ({65..<91} \<union> {48..<58}) = ({}::nat set)"
    by auto
  moreover have "{65..<91} \<inter> {48..<58} = ({}::nat set)"
    by auto
  ultimately show ?thesis
    by (simp only: base62_chars_upt distinct_append distinct_upt set_append set_upt simp_thms)
qed

lemma encode_utf8_surrogate:
  "\<exists>c \<in> set url. surrogate c \<Longrightarrow> encode_utf8 url = Inl UnicodeEncodeError"
  by (simp add: encode_utf8_def)

lemma encode_utf8_no_surrogate:
  "\<not> (\<exists>c \<in> set url. surrogate c) \<Longrightarrow> \<exists>url_bytes. encode_utf8 url = Inr url_bytes"
  by (simp add: encode_utf8_def)

text \<open>
  Claim C4, as amended. For every URL that UTF-8 can encode (one with no surrogate code
  point) and every length that is not negative, \<open>generate_short_id\<close> returns a string
  of exactly \<open>length\<close> characters, each one of the 62 symbols of the alphabet: the lower
  case letters, the upper case letters and the digits. For a negative length it
  returns the empty string, and for a URL that holds a surrogate code point it raises
  \<open>UnicodeEncodeError\<close>.
\<close>

theorem generate_short_id_length_alphabet:
  "(\<not> (\<exists>c \<in> set url. surrogate c) \<and> 0 \<le> len \<longrightarrow>
      (\<exists>s. fst (generate_short_id H url len rnd) = Inr s \<and> int (length s) = len \<and>
           set s \<subseteq> set base62_chars)) \<and>
   (\<not> (\<exists>c \<in> set url. surrogate c) \<and> len < 0 \<longrightarrow>
      fst (generate_short_id H url len rnd) = Inr []) \<and>
   ((\<exists>c \<in> set url. surrogate c) \<longrightarrow>
      fst (generate_short_id H url len rnd) = Inl UnicodeEncodeError) \<and>
   length base62_chars = 62 \<and> distinct base62_chars \<and>
   set base62_chars = {97..122} \<union> {65..90} \<union> {48..57}"
proof (intro conjI impI)
  assume a: "\<not> (\<exists>c \<in> set url. surrogate c) \<and> 0 \<le> len"
  then obtain url_bytes where "encode_utf8 url = Inr url_bytes"
    using encode_utf8_no_surrogate by blast
  then have "fst (generate_short_id H url len rnd) =
      Inr (generate_spec H url_bytes (ascii_bytes (fst (token_hex 8 rnd))) (nat len))"
    by (simp add: generate_short_id_eq)
  moreover have "int (length (generate_spec H url_bytes
      (ascii_bytes (fst (token_hex 8 rnd))) (nat len))) = len"
    using a by (simp add: generate_spec_def length_base62_symbols)
  moreover have "set (generate_spec H url_bytes
      (ascii_bytes (fst (token_hex 8 rnd))) (nat len)) \<subseteq> set base62_chars"
    by (simp add: generate_spec_def set_base62_symbols)
  ultimately show "\<exists>s. fst (generate_short_id H url len rnd) = Inr s \<and>
      int (length s) = len \<and> set s \<subseteq> set base62_chars"
    by blast
next
  assume a: "\<not> (\<exists>c \<in> set url. surrogate c) \<and> len < 0"
  then obtain url_bytes where "encode_utf8 url = Inr url_bytes"
    using encode_utf8_no_surrogate by blast
  with a show "fst (generate_short_id H url len rnd) = Inr []"
    by (simp add: generate_short_id_eq generate_spec_def)
next
  assume "\<exists>c \<in> set url. surrogate c"
  then have "encode_utf8 url = Inl UnicodeEncodeError"
    by (rule encode_utf8_surrogate)
  then show "fst (generate_short_id H url len rnd) = Inl UnicodeEncodeError"
    by (simp add: generate_short_id_eq)
next
  show "length base62_chars = 62"
    by (rule length_base62_chars)
next
  show "distinct base62_chars"
    by (rule distinct_base62_chars)
next
  show "set base62_chars = {97..122} \<union> {65..90} \<union> {48..57}"
    by (rule set_base62_chars)
qed

lemma url_a_no_surrogate: "\<not> (\<exists>c \<in> set url_a. surrogate c)"
  by (simp add: url_a_def str_def surrogate_def)

theorem generate_short_id_length_alphabet_witness:
  "\<not> (\<exists>c \<in> set url_a. surrogate c) \<and>
   (\<exists>s. fst (generate_short_id sample_hash url_a 6 zero_entropy) = Inr s \<and>
        int (length s) = 6 \<and> set s \<subseteq> set base62_chars) \<and>
   fst (generate_short_id sample_hash url_a (- 1) zero_entropy) = Inr [] \<and>
   (\<exists>c \<in> set (url_a @ [0xD800]). surrogate c) \<and>
   fst (generate_short_id sample_hash (url_a @ [0xD800]) 6 zero_entropy) =
     Inl UnicodeEncodeError"
proof -
  have s: "\<exists>c \<in> set (url_a @ [0xD800]). surrogate c"
    by (simp add: surrogate_def)
  from url_a_no_surrogate s
    generate_short_id_length_alphabet [of url_a 6 sample_hash zero_entropy]
    generate_short_id_length_alphabet [of url_a "- 1" sample_hash zero_entropy]
    generate_short_id_length_alphabet [of "url_a @ [0xD800]" 6 sample_hash zero_entropy]
  show ?thesis
    by simp
qed

text \<open>
  The claim as the specification states it fails at two inputs: with the length \<open>-1\<close>
  the result is the empty string, whose length is not \<open>-1\<close>; and with a URL that ends
  in the surrogate code point \<open>U+D800\<close> the call raises instead of returning a string.
\<close>

theorem generate_short_id_length_counterexample:
  "fst (generate_short_id sample_hash url_a (- 1) zero_entropy) = Inr [] \<and>
   int (length ([] :: pystr)) \<noteq> - 1 \<and>
   fst (generate_short_id sample_hash (url_a @ [0xD800]) 6 zero_entropy) =
     Inl UnicodeEncodeError"
proof (intro conjI)
  show "fst (generate_short_id sample_hash url_a (- 1) zero_entropy) = Inr []"
    by (simp add: generate_short_id_eq encode_url_a generate_spec_def)
  show "int (length ([] :: pystr)) \<noteq> - 1"
    by simp
  have "encode_utf8 (url_a @ [0xD800]) = Inl UnicodeEncodeError"
    by (rule encode_utf8_surrogate) (simp add: surrogate_def)
  then show "fst (generate_short_id sample_hash (url_a @ [0xD800]) 6 zero_entropy) =
     Inl UnicodeEncodeError"
    by (simp add: generate_short_id_eq)
qed

section \<open>Calls in flight together\<close>

subsection \<open>A call that runs alone\<close>

lemma task_step_Attempting:
  "task_step H (Attempting url (a # rest)) svc rnd =
     (case candidate H url rnd 0 of
        Inl e \<Rightarrow> (Raised e, svc, drop_entropy 8 rnd)
      | Inr short_id \<Rightarrow>
          if \<not> exists (storage svc) short_id
          then (Saving url short_id, svc, drop_entropy 8 rnd)
          else (Attempting url rest, svc, drop_entropy 8 rnd))"
  using snd_generate_short_id [of H url 6 rnd]
  by (cases "generate_short_id H url 6 rnd") (auto simp: candidate_0 split: sum.splits)

lemma step_single:
  "step H 0 \<lparr>tasks = [t], service = svc, random = rnd\<rparr> =
     (case task_step H t svc rnd of
        (t', svc', rnd') \<Rightarrow> \<lparr>tasks = [t'], service = svc', random = rnd'\<rparr>)"
  by (simp add: step_def)

lemma run_finished:
  "run H (replicate k 0) \<lparr>tasks = [finished r], service = svc, random = rnd\<rparr> =
     \<lparr>tasks = [finished r], service = svc, random = rnd\<rparr>"
  by (induction k) (auto simp: step_single finished_def split: sum.splits)

lemma run_saving:
  "run H (replicate (Suc k) 0) \<lparr>tasks = [Saving url c], service = svc, random = rnd\<rparr> =
     \<lparr>tasks = [finished (Inr c)], service = svc\<lparr>storage := save (storage svc) c url\<rparr>,
      random = rnd\<rparr>"
  using run_finished [of H k "Inr c"]
  by (simp add: step_single finished_def)

lemma run_alone:
  "run H (replicate (Suc (length xs)) 0)
     \<lparr>tasks = [Attempting url xs], service = svc, random = rnd\<rparr> =
     (case attempt_loop H url xs svc rnd of
        (r, svc', rnd') \<Rightarrow> \<lparr>tasks = [finished r], service = svc', random = rnd'\<rparr>)"
proof (induction xs arbitrary: rnd)
  case Nil
  show ?case
    by (simp add: step_single finished_def)
next
  case (Cons a xs)
  show ?case
  proof (cases "candidate H url rnd 0")
    case (Inl e)
    then show ?thesis
      using run_finished [of H "length (a # xs)" "Inl e" svc "drop_entropy 8 rnd"]
      by (simp add: step_single task_step_Attempting attempt_loop_Cons finished_def
          del: task_step.simps attempt_loop.simps)
  next
    case (Inr c)
    show ?thesis
    proof (cases "exists (storage svc) c")
      case True
      with Inr Cons.IH [of "drop_entropy 8 rnd"] show ?thesis
        by (simp add: step_single task_step_Attempting attempt_loop_Cons
            del: task_step.simps attempt_loop.simps)
    next
      case False
      with Inr run_saving [of H "length xs" url c svc "drop_entropy 8 rnd"] show ?thesis
        by (simp add: step_single task_step_Attempting attempt_loop_Cons
            del: task_step.simps attempt_loop.simps)
    qed
  qed
qed

text \<open>
  A call that is alone in the system and is given enough steps ends as the function
  \<open>create_short_url\<close> of the sequential model does: the split at the awaits changes
  nothing as long as no other call runs in between.
\<close>

lemma start_alone:
  "run H (replicate (Suc (nat (max_retries svc))) 0) (start [url] svc rnd) =
     (case create_short_url H url svc rnd of
        (r, svc', rnd') \<Rightarrow> \<lparr>tasks = [finished r], service = svc', random = rnd'\<rparr>)"
  using run_alone [of H "py_range (max_retries svc)" url svc rnd]
  by (simp add: start_def create_short_url_def length_py_range)

subsection \<open>Calls made one after another return distinct identifiers\<close>

lemma serve_grows:
  "exists (storage svc) short_id \<Longrightarrow>
   exists (storage (fst (snd (serve H q svc rnd)))) short_id"
  using serve_keeps_targets [of svc short_id _ H q rnd]
  by (auto simp: exists_def)

lemma serve_all_fresh:
  "short_id \<in> set (allocated_ids (fst (serve_all H requests svc rnd))) \<Longrightarrow>
   \<not> exists (storage svc) short_id"
proof (induction requests arbitrary: svc rnd)
  case Nil
  then show ?case by simp
next
  case (Cons q qs)
  let ?svc' = "fst (snd (serve H q svc rnd))"
  let ?rnd' = "snd (snd (serve H q svc rnd))"
  have later: "short_id \<in> set (allocated_ids (fst (serve_all H qs ?svc' ?rnd'))) \<Longrightarrow>
      \<not> exists (storage svc) short_id"
    using Cons.IH [of ?svc' ?rnd'] serve_grows [of svc short_id H q rnd] by blast
  show ?case
  proof (cases q)
    case (Resolve x)
    with Cons.prems later show ?thesis
      by (simp add: case_prod_beta)
  next
    case (Allocate url)
    show ?thesis
    proof (cases "fst (create_short_url H url svc rnd)")
      case (Inl e)
      with Cons.prems Allocate later show ?thesis
        by (simp add: case_prod_beta)
    next
      case (Inr new_id)
      with Cons.prems Allocate later create_success [OF Inr] show ?thesis
        by (auto simp: case_prod_beta)
    qed
  qed
qed

lemma sequential_ids_distinct:
  "distinct (allocated_ids (fst (serve_all H requests svc rnd)))"
proof (induction requests arbitrary: svc rnd)
  case Nil
  then show ?case by simp
next
  case (Cons q qs)
  let ?svc' = "fst (snd (serve H q svc rnd))"
  let ?rnd' = "snd (snd (serve H q svc rnd))"
  have rest: "distinct (allocated_ids (fst (serve_all H qs ?svc' ?rnd')))"
    by (rule Cons.IH)
  show ?case
  proof (cases q)
    case (Resolve x)
    with rest show ?thesis
      by (simp add: case_prod_beta)
  next
    case (Allocate url)
    show ?thesis
    proof (cases "fst (create_short_url H url svc rnd)")
      case (Inl e)
      with Allocate rest show ?thesis
        by (simp add: case_prod_beta)
    next
      case (Inr new_id)
      from create_success [OF Inr] have "exists (storage ?svc') new_id"
        using Allocate by (simp add: case_prod_beta exists_def save_def)
      then have "new_id \<notin> set (allocated_ids (fst (serve_all H qs ?svc' ?rnd')))"
        using serve_all_fresh by blast
      with Allocate Inr rest show ?thesis
        by (simp add: case_prod_beta)
    qed
  qed
qed

subsection \<open>Two calls in flight\<close>

lemma race_after_checks:
  assumes "0 < max_retries svc"
    and "candidate H u1 rnd 0 = Inr c"
    and "candidate H u2 rnd 1 = Inr c"
    and "\<not> exists (storage svc) c"
  shows "run H [0, 1] (start [u1, u2] svc rnd) =
     \<lparr>tasks = [Saving u1 c, Saving u2 c], service = svc, random = drop_entropy 16 rnd\<rparr>"
proof -
  from assms(3) have c2: "candidate H u2 (drop_entropy 8 rnd) 0 = Inr c"
    by (simp add: candidate_Suc)
  show ?thesis
    using assms(1,2,4) c2
    by (simp add: start_def step_def py_range_pos task_step_Attempting drop_entropy_drop
        del: task_step.simps)
qed

lemma race_after_saves:
  assumes "0 < max_retries svc"
    and "candidate H u1 rnd 0 = Inr c"
    and "candidate H u2 rnd 1 = Inr c"
    and "\<not> exists (storage svc) c"
  shows "run H [0, 1, 0, 1] (start [u1, u2] svc rnd) =
     \<lparr>tasks = [Returned c, Returned c],
      service = svc\<lparr>storage := save (save (storage svc) c u1) c u2\<rparr>,
      random = drop_entropy 16 rnd\<rparr>"
proof -
  have "run H [0, 1, 0, 1] (start [u1, u2] svc rnd) =
      run H [0, 1] (run H [0, 1] (start [u1, u2] svc rnd))"
    by simp
  also have "\<dots> = run H [0, 1]
      \<lparr>tasks = [Saving u1 c, Saving u2 c], service = svc, random = drop_entropy 16 rnd\<rparr>"
    by (simp only: race_after_checks [OF assms])
  also have "\<dots> = \<lparr>tasks = [Returned c, Returned c],
      service = svc\<lparr>storage := save (save (storage svc) c u1) c u2\<rparr>,
      random = drop_entropy 16 rnd\<rparr>"
    by (simp add: step_def)
  finally show ?thesis .
qed

lemma one_after_the_other:
  assumes "0 < max_retries svc"
    and "candidate H u1 rnd 0 = Inr c"
    and "candidate H u2 rnd 1 = Inr c"
    and "\<not> exists (storage svc) c"
  shows "run H [0, 0, 1] (start [u1, u2] svc rnd) =
     \<lparr>tasks = [Returned c, Attempting u2 [1..<nat (max_retries svc)]],
      service = svc\<lparr>storage := save (storage svc) c u1\<rparr>,
      random = drop_entropy 16 rnd\<rparr>"
proof -
  from assms(3) have c2: "candidate H u2 (drop_entropy 8 rnd) 0 = Inr c"
    by (simp add: candidate_Suc)
  show ?thesis
    using assms(1,2,4) c2
    by (simp add: start_def step_def py_range_pos task_step_Attempting drop_entropy_drop
        exists_def save_def del: task_step.simps(2))
qed

subsection \<open>The sample race\<close>

lemma token_sample_second:
  "fst (token_hex 8 (drop_entropy 8 sample_entropy)) = str ''0000000000000000''"
  by (simp add: token_hex_8 hexlify_2 drop_entropy_def sample_entropy_def hex_digit_def str_def)

lemma token_sample_third:
  "fst (token_hex 8 (drop_entropy 16 sample_entropy)) = str ''0000000000000002''"
  by (simp add: token_hex_8 hexlify_2 drop_entropy_def sample_entropy_def hex_digit_def str_def)

lemma sum_a_one:
  "sum_list (map unat (ascii_bytes url_a @ ascii_bytes (str ''0000000000000001''))) = 2741"
  by (simp add: ascii_bytes_def url_a_def str_def)

lemma sum_b_zero:
  "sum_list (map unat (ascii_bytes url_b @ ascii_bytes (str ''0000000000000000''))) = 2741"
  by (simp add: ascii_bytes_def url_b_def str_def)

lemma sum_b_two:
  "sum_list (map unat (ascii_bytes url_b @ ascii_bytes (str ''0000000000000002''))) = 2743"
  by (simp add: ascii_bytes_def url_b_def str_def)

lemma base62_2741: "base62_symbols 6 2741 = str ''nSaaaa''"
  by (simp add: base62_symbols_6 base62_chars_def ascii_letters_def digits_def str_def)

lemma base62_2743: "base62_symbols 6 2743 = str ''pSaaaa''"
  by (simp add: base62_symbols_6 base62_chars_def ascii_letters_def digits_def str_def)

lemma candidate_a_sample_0: "candidate sample_hash url_a sample_entropy 0 = Inr (str ''nSaaaa'')"
  using generate_sample_hash [OF encode_url_a token_sample sum_a_one] base62_2741
  by (simp add: candidate_0)

lemma candidate_b_sample_1: "candidate sample_hash url_b sample_entropy 1 = Inr (str ''nSaaaa'')"
  using generate_sample_hash [OF encode_url_b token_sample_second sum_b_zero] base62_2741
  by (simp add: candidate_def)

lemma candidate_b_sample_2: "candidate sample_hash url_b sample_entropy 2 = Inr (str ''pSaaaa'')"
  using generate_sample_hash [OF encode_url_b token_sample_third sum_b_two] base62_2743
  by (simp add: candidate_def)

lemma urls_differ: "url_a \<noteq> url_b"
  by (simp add: url_a_def url_b_def str_def)

lemma sample_sequential:
  "serve_all sample_hash [Allocate url_a, Allocate url_b] (new_service Map.empty) sample_entropy =
     ([Allocated (Inr (str ''nSaaaa'')), Allocated (Inr (str ''pSaaaa''))],
      (new_service Map.empty)\<lparr>storage :=
         save (save Map.empty (str ''nSaaaa'') url_a) (str ''pSaaaa'') url_b\<rparr>,
      drop_entropy 24 sample_entropy)"
proof -
  let ?svc1 = "(new_service Map.empty)\<lparr>storage := save Map.empty (str ''nSaaaa'') url_a\<rparr>"
  have first: "create_short_url sample_hash url_a (new_service Map.empty) sample_entropy =
      (Inr (str ''nSaaaa''), ?svc1, drop_entropy 8 sample_entropy)"
    using create_first_free [of 0 "new_service Map.empty" sample_hash url_a sample_entropy
        "str ''nSaaaa''"]
    by (simp add: candidate_a_sample_0 new_service_def exists_def)
  have c0: "candidate sample_hash url_b (drop_entropy 8 sample_entropy) 0 = Inr (str ''nSaaaa'')"
    using candidate_b_sample_1 by (simp add: candidate_Suc)
  have c1: "candidate sample_hash url_b (drop_entropy 8 sample_entropy) 1 = Inr (str ''pSaaaa'')"
    using candidate_b_sample_2 by (simp add: candidate_Suc numeral_2_eq_2)
  have differ: "str ''pSaaaa'' \<noteq> str ''nSaaaa''"
    by (simp add: str_def)
  have second: "create_short_url sample_hash url_b ?svc1 (drop_entropy 8 sample_entropy) =
      (Inr (str ''pSaaaa''), ?svc1\<lparr>storage := save (storage ?svc1) (str ''pSaaaa'') url_b\<rparr>,
       drop_entropy (8 * Suc 1) (drop_entropy 8 sample_entropy))"
  proof (rule create_first_free)
    show "1 < nat (max_retries ?svc1)"
      by (simp add: new_service_def)
    show "candidate sample_hash url_b (drop_entropy 8 sample_entropy) 1 = Inr (str ''pSaaaa'')"
      by (rule c1)
    show "\<not> exists (storage ?svc1) (str ''pSaaaa'')"
      using differ by (simp add: exists_def save_def)
    show "\<forall>j < 1. \<exists>c'. candidate sample_hash url_b (drop_entropy 8 sample_entropy) j = Inr c' \<and>
        exists (storage ?svc1) c'"
      using c0 by (simp add: exists_def save_def)
  qed
  from first second show ?thesis
    by (simp add: drop_entropy_drop)
qed

text \<open>
  Claim C3. The claim asks that of two calls in flight that generate the same candidate
  for a free identifier at most one reserves it and the other observes a collision and
  retries. The code holds the lock inside \<open>exists\<close> and inside \<open>save\<close>, not across
  the two. With the schedule that gives each call its check before either call saves,
  both calls are past \<open>exists\<close> with the answer \<open>False\<close>, neither observes a
  collision, both save and both return the candidate; the store keeps the target of
  the call that saved last. Only when the first call has saved before the second one
  checks does the second observe the collision and go on to its next attempt.
\<close>

theorem both_calls_reserve_same_candidate:
  "0 < max_retries svc \<Longrightarrow> candidate H u1 rnd 0 = Inr c \<Longrightarrow>
   candidate H u2 rnd 1 = Inr c \<Longrightarrow> \<not> exists (storage svc) c \<Longrightarrow>
   tasks (run H [0, 1] (start [u1, u2] svc rnd)) = [Saving u1 c, Saving u2 c] \<and>
   tasks (run H [0, 1, 0, 1] (start [u1, u2] svc rnd)) = [Returned c, Returned c] \<and>
   storage (service (run H [0, 1, 0, 1] (start [u1, u2] svc rnd))) =
     save (save (storage svc) c u1) c u2 \<and>
   tasks (run H [0, 0, 1] (start [u1, u2] svc rnd)) =
     [Returned c, Attempting u2 [1..<nat (max_retries svc)]]"
proof -
  assume a: "0 < max_retries svc" "candidate H u1 rnd 0 = Inr c"
    "candidate H u2 rnd 1 = Inr c" "\<not> exists (storage svc) c"
  show ?thesis
    by (simp only: race_after_checks [OF a] race_after_saves [OF a] one_after_the_other [OF a])
       simp
qed

theorem both_calls_reserve_same_candidate_witness:
  "0 < max_retries (new_service Map.empty) \<and>
   candidate sample_hash url_a sample_entropy 0 = Inr (str ''nSaaaa'') \<and>
   candidate sample_hash url_b sample_entropy 1 = Inr (str ''nSaaaa'') \<and>
   \<not> exists (storage (new_service Map.empty)) (str ''nSaaaa'') \<and>
   tasks (run sample_hash [0, 1] (start [url_a, url_b] (new_service Map.empty) sample_entropy)) =
     [Saving url_a (str ''nSaaaa''), Saving url_b (str ''nSaaaa'')] \<and>
   tasks (run sample_hash [0, 1, 0, 1]
       (start [url_a, url_b] (new_service Map.empty) sample_entropy)) =
     [Returned (str ''nSaaaa''), Returned (str ''nSaaaa'')]"
proof -
  have m: "0 < max_retries (new_service Map.empty)"
    by (simp add: new_service_def)
  have free: "\<not> exists (storage (new_service Map.empty)) (str ''nSaaaa'')"
    by (simp add: new_service_def exists_def)
  from m candidate_a_sample_0 candidate_b_sample_1 free
    both_calls_reserve_same_candidate [OF m candidate_a_sample_0 candidate_b_sample_1 free]
  show ?thesis
    by blast
qed

text \<open>
  Claim C1. For calls made one after another the returned identifiers are pairwise
  distinct (\<open>sequential_ids_distinct\<close>). For calls in flight together they need not
  be: with the sample inputs, two calls for two different URLs whose candidates
  coincide both return \<open>nSaaaa\<close> when each runs its check before either saves. The
  identifier is returned twice, and the store maps it to the second URL only, so the
  identifier returned for the first URL resolves to the other one. Made one after the
  other, the same two calls return \<open>nSaaaa\<close> and \<open>pSaaaa\<close>.
\<close>

theorem concurrent_calls_return_same_id:
  "tasks (run sample_hash [0, 1, 0, 1]
       (start [url_a, url_b] (new_service Map.empty) sample_entropy)) =
     [Returned (str ''nSaaaa''), Returned (str ''nSaaaa'')] \<and>
   get_original_url
       (service (run sample_hash [0, 1, 0, 1]
          (start [url_a, url_b] (new_service Map.empty) sample_entropy)))
       (str ''nSaaaa'') = Some url_b \<and>
   url_a \<noteq> url_b \<and>
   allocated_ids (fst (serve_all sample_hash [Allocate url_a, Allocate url_b]
       (new_service Map.empty) sample_entropy)) = [str ''nSaaaa'', str ''pSaaaa'']"
proof -
  have m: "0 < max_retries (new_service Map.empty)"
    by (simp add: new_service_def)
  have free: "\<not> exists (storage (new_service Map.empty)) (str ''nSaaaa'')"
    by (simp add: new_service_def exists_def)
  show ?thesis
    by (simp only: race_after_saves [OF m candidate_a_sample_0 candidate_b_sample_1 free]
        sample_sequential)
       (simp add: urls_differ get_original_url_def get_def save_def)
qed

subsection \<open>Coinciding candidates exist for every digest function\<close>

text \<open>
  There are only \<open>62 ^ 6\<close> identifiers. Whatever the digest function is, among the
  \<open>62 ^ 6 + 1\<close> URLs \<open>https://example.com/\<close>, \<open>https://example.com/a\<close>,
  \<open>https://example.com/aa\<close>, ... two have the same candidate for the same token.
\<close>

lemma candidate_in_alphabet:
  "\<forall>c \<in> set url. c < 0x80 \<Longrightarrow>
   candidate H url rnd i \<in> Inr ` {s. set s \<subseteq> set base62_chars \<and> length s = 6}"
proof -
  assume "\<forall>c \<in> set url. c < 0x80"
  then have "encode_utf8 url = Inr (ascii_bytes url)"
    by (rule encode_utf8_ascii)
  then show ?thesis
    by (simp add: candidate_def generate_short_id_eq generate_spec_def
        set_base62_symbols length_base62_symbols)
qed

lemma card_identifiers:
  "card {s. set s \<subseteq> set base62_chars \<and> length s = 6} = 62 ^ 6"
proof -
  have "card (set base62_chars) = 62"
    using distinct_card [OF distinct_base62_chars] by (simp add: length_base62_chars)
  then show ?thesis
    by (simp add: card_lists_length_eq)
qed

lemma coinciding_candidates:
  "\<exists>u1 u2 c. u1 \<noteq> u2 \<and> candidate H u1 rnd i = Inr c \<and> candidate H u2 rnd i = Inr c"
proof -
  define url where "url n = str ''https://example.com/'' @ replicate n 97" for n :: nat
  define f where "f n = candidate H (url n) rnd i" for n
  let ?B = "{s. set s \<subseteq> set base62_chars \<and> length s = 6}"
  let ?A = "{0..(62::nat) ^ 6}"
  have ascii: "\<forall>c \<in> set (url n). c < 0x80" for n
    by (auto simp: url_def str_def)
  have fin: "finite ?B"
    by (rule finite_lists_length_eq) simp
  have "f ` ?A \<subseteq> Inr ` ?B"
    using candidate_in_alphabet [OF ascii] by (auto simp: f_def)
  then have "card (f ` ?A) \<le> card (Inr ` ?B :: (error + pystr) set)"
    using fin by (intro card_mono) simp_all
  also have "\<dots> = card ?B"
    by (rule card_image) simp
  also have "\<dots> < card ?A"
    by (simp only: card_identifiers card_atLeastAtMost)
  finally have "\<not> inj_on f ?A"
    by (rule pigeonhole)
  then obtain n m where nm: "n \<noteq> m" "f n = f m"
    by (auto simp: inj_on_def)
  from nm(1) have "length (url n) \<noteq> length (url m)"
    by (simp add: url_def)
  then have differ: "url n \<noteq> url m"
    by auto
  have "candidate H (url n) rnd i \<in> Inr ` ?B"
    by (rule candidate_in_alphabet [OF ascii])
  then obtain c where "candidate H (url n) rnd i = Inr c"
    by auto
  with nm(2) differ show ?thesis
    unfolding f_def by metis
qed

text \<open>
  So the schedule in which both calls check before either saves returns one identifier
  to two calls for two different URLs whatever the digest function is, once the two
  calls draw the same token.
\<close>

lemma race_for_every_hash:
  assumes "0 < max_retries svc" and "storage svc = Map.empty"
  shows "\<exists>u1 u2 c. u1 \<noteq> u2 \<and>
     tasks (run H [0, 1, 0, 1] (start [u1, u2] svc zero_entropy)) = [Returned c, Returned c] \<and>
     get_original_url (service (run H [0, 1, 0, 1] (start [u1, u2] svc zero_entropy))) c =
       Some u2"
proof -
  obtain u1 u2 c where u: "u1 \<noteq> u2" "candidate H u1 zero_entropy 0 = Inr c"
      "candidate H u2 zero_entropy 0 = Inr c"
    using coinciding_candidates [of H zero_entropy 0] by blast
  have "candidate H u2 zero_entropy 1 = candidate H u2 zero_entropy 0"
    by (simp add: candidate_def drop_zero_entropy)
  with u(3) have c2: "candidate H u2 zero_entropy 1 = Inr c"
    by simp
  have free: "\<not> exists (storage svc) c"
    using assms(2) by (simp add: exists_def)
  have "run H [0, 1, 0, 1] (start [u1, u2] svc zero_entropy) =
     \<lparr>tasks = [Returned c, Returned c],
      service = svc\<lparr>storage := save (save (storage svc) c u1) c u2\<rparr>,
      random = drop_entropy 16 zero_entropy\<rparr>"
    using assms(1) u(2) c2 free by (rule race_after_saves)
  then have "tasks (run H [0, 1, 0, 1] (start [u1, u2] svc zero_entropy)) =
       [Returned c, Returned c] \<and>
     get_original_url (service (run H [0, 1, 0, 1] (start [u1, u2] svc zero_entropy))) c =
       Some u2"
    by (simp add: get_original_url_def get_def save_def)
  with u(1) show ?thesis
    by blast
qed

subsection \<open>A target changed by a call in flight\<close>

lemma race_after_first_save:
  assumes "0 < max_retries svc"
    and "candidate H u1 rnd 0 = Inr c"
    and "candidate H u2 rnd 1 = Inr c"
    and "\<not> exists (storage svc) c"
  shows "run H [0, 1, 0] (start [u1, u2] svc rnd) =
     \<lparr>tasks = [Returned c, Saving u2 c],
      service = svc\<lparr>storage := save (storage svc) c u1\<rparr>,
      random = drop_entropy 16 rnd\<rparr>"
proof -
  have "run H [0, 1, 0] (start [u1, u2] svc rnd) =
      run H [0] (run H [0, 1] (start [u1, u2] svc rnd))"
    by simp
  also have "\<dots> = run H [0]
      \<lparr>tasks = [Saving u1 c, Saving u2 c], service = svc, random = drop_entropy 16 rnd\<rparr>"
    by (simp only: race_after_checks [OF assms])
  also have "\<dots> = \<lparr>tasks = [Returned c, Saving u2 c],
      service = svc\<lparr>storage := save (storage svc) c u1\<rparr>,
      random = drop_entropy 16 rnd\<rparr>"
    by (simp add: step_def)
  finally show ?thesis .
qed

lemma mapped_target_overwritten:
  assumes "0 < max_retries svc"
    and "candidate H u1 rnd 0 = Inr c"
    and "candidate H u2 rnd 1 = Inr c"
    and "\<not> exists (storage svc) c"
  shows "get_original_url (service (run H [0, 1, 0] (start [u1, u2] svc rnd))) c = Some u1"
    and "get_original_url
       (service (step H 1 (run H [0, 1, 0] (start [u1, u2] svc rnd)))) c = Some u2"
  by (simp_all only: race_after_first_save [OF assms])
     (simp_all add: step_def get_original_url_def get_def save_def)

text \<open>
  Claim C8. The claim asks that a target, once it is associated with an identifier, is
  never changed by a later operation of the service. For operations made one after
  another this holds (\<open>sequential_targets_never_change\<close>). With a second allocation
  in flight it does not: in the sample run the first call has returned \<open>nSaaaa\<close> and
  the identifier resolves to the first URL; the second call, which had checked the same
  candidate before the first one saved, then performs its \<open>save\<close>, and the same
  identifier resolves to the second URL.
\<close>

theorem target_overwritten_by_call_in_flight:
  "tasks (run sample_hash [0, 1, 0]
       (start [url_a, url_b] (new_service Map.empty) sample_entropy)) =
     [Returned (str ''nSaaaa''), Saving url_b (str ''nSaaaa'')] \<and>
   get_original_url
       (service (run sample_hash [0, 1, 0]
          (start [url_a, url_b] (new_service Map.empty) sample_entropy)))
       (str ''nSaaaa'') = Some url_a \<and>
   get_original_url
       (service (step sample_hash 1 (run sample_hash [0, 1, 0]
          (start [url_a, url_b] (new_service Map.empty) sample_entropy))))
       (str ''nSaaaa'') = Some url_b \<and>
   Some url_a \<noteq> Some url_b"
proof -
  have m: "0 < max_retries (new_service Map.empty)"
    by (simp add: new_service_def)
  have free: "\<not> exists (storage (new_service Map.empty)) (str ''nSaaaa'')"
    by (simp add: new_service_def exists_def)
  note facts = m candidate_a_sample_0 candidate_b_sample_1 free
  have "tasks (run sample_hash [0, 1, 0]
       (start [url_a, url_b] (new_service Map.empty) sample_entropy)) =
     [Returned (str ''nSaaaa''), Saving url_b (str ''nSaaaa'')]"
    by (simp only: race_after_first_save [OF facts]) simp
  with mapped_target_overwritten [OF facts] urls_differ show ?thesis
    by simp
qed

end
